theory Spec2Isabelle
  imports Main "HOL-Library.Log_Nat" "HOL-Library.Word"
begin

section \<open>JavaScript Number values\<close>

text \<open>
  The helper computes with JavaScript Numbers, that is IEEE 754 binary64 values with
  round-to-nearest, ties-to-even. A finite value is modelled by the rational it denotes;
  \<open>Fin 0\<close> is \<open>+0\<close> and \<open>NZero\<close> is \<open>-0\<close>. Every operation below returns the exact
  result rounded by \<open>rnd\<close>, so the finite values it produces are binary64 values.
\<close>

datatype number = NaN | PInf | NInf | NZero | Fin rat

text \<open>Round a rational to the nearest integer, a tie going to the even neighbour.\<close>

definition rhe :: "rat \<Rightarrow> int" where
  "rhe x =
     (let f = \<lfloor>x\<rfloor>; d = x - of_int f
      in if d < 1 / 2 then f else if 1 / 2 < d then f + 1 else if even f then f else f + 1)"

text \<open>The binary exponent \<open>\<lfloor>log\<^sub>2 \<bar>x\<bar>\<rfloor>\<close> of a non-zero rational.\<close>

definition expo :: "rat \<Rightarrow> int" where
  "expo x = (if 1 \<le> \<bar>x\<bar> then bitlen \<lfloor>\<bar>x\<bar>\<rfloor> - 1 else - bitlen (\<lceil>1 / \<bar>x\<bar>\<rceil> - 1))"

text \<open>
  The spacing of binary64 values around \<open>x\<close> is \<open>2 powi ulp_exp x\<close>: 53 significant bits,
  and never finer than the subnormal spacing \<open>2 powi -1074\<close>.
\<close>

definition ulp_exp :: "rat \<Rightarrow> int" where
  "ulp_exp x = max (expo x - 52) (- 1074)"

text \<open>The multiple of that spacing nearest to \<open>x\<close>, with an unbounded exponent range.\<close>

definition rq :: "rat \<Rightarrow> rat" where
  "rq x = (let k = ulp_exp x in of_int (rhe (x / 2 powi k)) * 2 powi k)"

text \<open>The Number nearest to an exact result: overflow gives an infinity, and a negative
  result that rounds to zero gives \<open>-0\<close>.\<close>

definition rnd :: "rat \<Rightarrow> number" where
  "rnd x =
     (let y = rq x
      in if 2 ^ 1024 \<le> \<bar>y\<bar> then (if 0 < x then PInf else NInf)
         else if y = 0 \<and> x < 0 then NZero
         else Fin y)"

fun val :: "number \<Rightarrow> rat" where
  "val (Fin q) = q"
| "val _ = 0"

fun is_inf :: "number \<Rightarrow> bool" where
  "is_inf PInf = True"
| "is_inf NInf = True"
| "is_inf _ = False"

fun is_zero :: "number \<Rightarrow> bool" where
  "is_zero NZero = True"
| "is_zero (Fin q) = (q = 0)"
| "is_zero _ = False"

fun sign_bit :: "number \<Rightarrow> bool" where
  "sign_bit NInf = True"
| "sign_bit NZero = True"
| "sign_bit (Fin q) = (q < 0)"
| "sign_bit _ = False"

definition signed_inf :: "bool \<Rightarrow> number" where
  "signed_inf s = (if s then NInf else PInf)"

definition signed_zero :: "bool \<Rightarrow> number" where
  "signed_zero s = (if s then NZero else Fin 0)"

text \<open>The operators \<open>+\<close>, \<open>*\<close> and \<open>/\<close> on Numbers.\<close>

definition num_add :: "number \<Rightarrow> number \<Rightarrow> number" where
  "num_add x y =
     (if x = NaN \<or> y = NaN then NaN
      else if is_inf x \<and> is_inf y then (if x = y then x else NaN)
      else if is_inf x then x
      else if is_inf y then y
      else if x = NZero \<and> y = NZero then NZero
      else rnd (val x + val y))"

definition num_mul :: "number \<Rightarrow> number \<Rightarrow> number" where
  "num_mul x y =
     (if x = NaN \<or> y = NaN then NaN
      else if is_inf x \<or> is_inf y then
        (if is_zero x \<or> is_zero y then NaN else signed_inf (sign_bit x \<noteq> sign_bit y))
      else if is_zero x \<or> is_zero y then signed_zero (sign_bit x \<noteq> sign_bit y)
      else rnd (val x * val y))"

definition num_div :: "number \<Rightarrow> number \<Rightarrow> number" where
  "num_div x y =
     (if x = NaN \<or> y = NaN then NaN
      else if is_inf x then (if is_inf y then NaN else signed_inf (sign_bit x \<noteq> sign_bit y))
      else if is_inf y then signed_zero (sign_bit x \<noteq> sign_bit y)
      else if is_zero y then (if is_zero x then NaN else signed_inf (sign_bit x \<noteq> sign_bit y))
      else if is_zero x then signed_zero (sign_bit x \<noteq> sign_bit y)
      else rnd (val x / val y))"

text \<open>\<open>Math.max\<close> and \<open>Math.min\<close> of two arguments: \<open>NaN\<close> if either is, and \<open>+0\<close> counts
  as larger than \<open>-0\<close>.\<close>

definition math_max :: "number \<Rightarrow> number \<Rightarrow> number" where
  "math_max x y =
     (if x = NaN \<or> y = NaN then NaN
      else if x = PInf \<or> y = PInf then PInf
      else if x = NInf then y
      else if y = NInf then x
      else if val x < val y then y
      else if val y < val x then x
      else if x = NZero then y else x)"

definition math_min :: "number \<Rightarrow> number \<Rightarrow> number" where
  "math_min x y =
     (if x = NaN \<or> y = NaN then NaN
      else if x = NInf \<or> y = NInf then NInf
      else if x = PInf then y
      else if y = PInf then x
      else if val x < val y then x
      else if val y < val x then y
      else if x = NZero then x else y)"

text \<open>A decimal literal of the source denotes the Number nearest to its exact value.\<close>

definition lit :: "rat \<Rightarrow> number" where
  "lit q = rnd q"

section \<open>Strings and \<open>parseInt\<close>\<close>

text \<open>A JavaScript string is a sequence of 16-bit code units.\<close>

type_synonym jsstring = "16 word list"

definition js_str :: "string \<Rightarrow> jsstring" where
  "js_str s = map of_char s"

text \<open>\<open>s.substr(start, len)\<close> for non-negative \<open>start\<close> and \<open>len\<close>.\<close>

definition substr :: "jsstring \<Rightarrow> nat \<Rightarrow> nat \<Rightarrow> jsstring" where
  "substr s start len = take len (drop start s)"

text \<open>White space and line terminators, which \<open>parseInt\<close> skips at the start.\<close>

definition is_space :: "16 word \<Rightarrow> bool" where
  "is_space c \<longleftrightarrow>
     c \<in> {0x9, 0xA, 0xB, 0xC, 0xD, 0x20, 0xA0, 0x1680, 0x2028, 0x2029, 0x202F, 0x205F,
          0x3000, 0xFEFF} \<or> (0x2000 \<le> c \<and> c \<le> 0x200A)"

text \<open>The value of a code unit as a radix-16 digit, if it is one.\<close>

definition hex_digit :: "16 word \<Rightarrow> nat option" where
  "hex_digit c =
     (if 0x30 \<le> c \<and> c \<le> 0x39 then Some (unat c - 0x30)
      else if 0x61 \<le> c \<and> c \<le> 0x66 then Some (unat c - 0x57)
      else if 0x41 \<le> c \<and> c \<le> 0x46 then Some (unat c - 0x37)
      else None)"

text \<open>The longest prefix of radix-16 digits, as digit values.\<close>

fun digit_prefix :: "jsstring \<Rightarrow> nat list" where
  "digit_prefix [] = []"
| "digit_prefix (c # cs) = (case hex_digit c of None \<Rightarrow> [] | Some d \<Rightarrow> d # digit_prefix cs)"

definition digits_value :: "nat list \<Rightarrow> nat" where
  "digits_value ds = foldl (\<lambda>acc d. 16 * acc + d) 0 ds"

definition strip_sign :: "jsstring \<Rightarrow> bool \<times> jsstring" where
  "strip_sign s =
     (case s of
        [] \<Rightarrow> (False, [])
      | c # cs \<Rightarrow> if c = 0x2D then (True, cs) else if c = 0x2B then (False, cs) else (False, s))"

definition strip_prefix :: "jsstring \<Rightarrow> jsstring" where
  "strip_prefix s =
     (case s of
        c # d # cs \<Rightarrow> if c = 0x30 \<and> (d = 0x78 \<or> d = 0x58) then cs else s
      | _ \<Rightarrow> s)"

text \<open>\<open>parseInt(s, 16)\<close>.\<close>

definition parseInt16 :: "jsstring \<Rightarrow> number" where
  "parseInt16 s =
     (let (neg, s1) = strip_sign (dropWhile is_space s);
          z = digit_prefix (strip_prefix s1)
      in if z = [] then NaN
         else let n = digits_value z
              in if n = 0 then signed_zero neg
                 else rnd (if neg then - of_nat n else of_nat n))"

section \<open>The contrast helper\<close>

definition contrastRatio :: "number \<Rightarrow> number \<Rightarrow> number" where
  "contrastRatio l1 l2 =
     (let lighter = math_max l1 l2;
          darker = math_min l1 l2;
          numerator = num_add lighter (lit (5 / 100));
          denominator = num_add darker (lit (5 / 100))
      in num_div numerator denominator)"

definition relativeLuminance :: "number \<times> number \<times> number \<Rightarrow> number" where
  "relativeLuminance c =
     (case c of (r, g, b) \<Rightarrow>
        let rs = num_mul (lit (2126 / 10000)) r;
            gs = num_mul (lit (7152 / 10000)) g;
            bs = num_mul (lit (722 / 10000)) b
        in num_add (num_add rs gs) bs)"

definition normalizeColor :: "number \<times> number \<times> number \<Rightarrow> number \<times> number \<times> number" where
  "normalizeColor c =
     (case c of (r, g, b) \<Rightarrow>
        let rn = num_div r (lit 255);
            gn = num_div g (lit 255);
            bn = num_div b (lit 255)
        in (rn, gn, bn))"

definition toRGB_hex :: "jsstring \<Rightarrow> number \<times> number \<times> number" where
  "toRGB_hex color =
     (let chunkLength = (if length color = 4 then 1 else 2);
          r = parseInt16 (substr color 1 chunkLength);
          g = parseInt16 (substr color (1 + chunkLength) chunkLength);
          b = parseInt16 (substr color (1 + chunkLength * 2) chunkLength)
      in (r, g, b))"

text \<open>
  An element-like object: whatever else it and its \<open>style\<close> hold, \<open>style.color\<close> and
  \<open>style.backgroundColor\<close> are strings or are not set. \<open>toRGB.hex\<close> starts by reading
  \<open>color.length\<close>, which throws a \<open>TypeError\<close> for a property that is not set.
\<close>

datatype error = TypeError

record css_style =
  color :: "jsstring option"
  backgroundColor :: "jsstring option"

record 's element =
  style :: "'s css_style_scheme"

text \<open>The optional third argument is \<open>None\<close> when the caller omits it.\<close>

definition checkTextContrast ::
  "'app \<Rightarrow> ('s, 'a) element_scheme \<Rightarrow> ('s, 'a) element_scheme option \<Rightarrow> error + number" where
  "checkTextContrast app text background_arg =
     (let background = (case background_arg of None \<Rightarrow> text | Some b \<Rightarrow> b)
      in case color (style text) of
           None \<Rightarrow> Inl TypeError
         | Some fg \<Rightarrow>
             let foregroundRGB = toRGB_hex fg
             in (case backgroundColor (style background) of
                   None \<Rightarrow> Inl TypeError
                 | Some bgc \<Rightarrow>
                     let backgroundRGB = toRGB_hex bgc;
                         normalColorFG = normalizeColor foregroundRGB;
                         normalColorBG = normalizeColor backgroundRGB;
                         l1 = relativeLuminance normalColorFG;
                         l2 = relativeLuminance normalColorBG;
                         ratio = contrastRatio l1 l2
                     in Inr ratio))"

section \<open>Vocabulary of the specification\<close>

text \<open>A valid hex color: \<open>#\<close> followed by exactly three or exactly six hex digits.\<close>

definition valid_hex_color :: "jsstring \<Rightarrow> bool" where
  "valid_hex_color s =
     (case s of
        [] \<Rightarrow> False
      | c # cs \<Rightarrow> c = 0x23 \<and> (length cs = 3 \<or> length cs = 6) \<and> list_all (\<lambda>d. hex_digit d \<noteq> None) cs)"

text \<open>The full form of a shorthand color: every digit doubled.\<close>

definition expand_shorthand :: "jsstring \<Rightarrow> jsstring" where
  "expand_shorthand s = (case s of [] \<Rightarrow> [] | c # cs \<Rightarrow> c # concat (map (\<lambda>d. [d, d]) cs))"

text \<open>The luminance that \<open>checkTextContrast\<close> computes for one color string.\<close>

definition luminance_of :: "jsstring \<Rightarrow> number" where
  "luminance_of c = relativeLuminance (normalizeColor (toRGB_hex c))"

text \<open>Some channel of a parsed color is not-a-number.\<close>

definition has_nan :: "number \<times> number \<times> number \<Rightarrow> bool" where
  "has_nan c = (case c of (r, g, b) \<Rightarrow> r = NaN \<or> g = NaN \<or> b = NaN)"

text \<open>A luminance in \<open>[0, 1]\<close>.\<close>

definition in_unit :: "number \<Rightarrow> bool" where
  "in_unit x = (case x of Fin q \<Rightarrow> 0 \<le> q \<and> q \<le> 1 | NZero \<Rightarrow> True | _ \<Rightarrow> False)"

text \<open>The comparison \<open>x < y\<close> of two Numbers.\<close>

fun num_lt :: "number \<Rightarrow> number \<Rightarrow> bool" where
  "num_lt NaN _ = False"
| "num_lt _ NaN = False"
| "num_lt PInf _ = False"
| "num_lt _ PInf = True"
| "num_lt _ NInf = False"
| "num_lt NInf _ = True"
| "num_lt x y = (val x < val y)"

text \<open>An element with the given \<open>style.color\<close> and \<open>style.backgroundColor\<close> and nothing else.\<close>

definition elem :: "jsstring option \<Rightarrow> jsstring option \<Rightarrow> unit element" where
  "elem c b = \<lparr>style = \<lparr>color = c, backgroundColor = b\<rparr>\<rparr>"

section \<open>Rounding\<close>

lemma rhe_of_int: "rhe (of_int n) = n"
  by (simp add: rhe_def)

lemma rhe_mono: "x \<le> y \<Longrightarrow> rhe x \<le> rhe y"
proof -
  assume xy: "x \<le> y"
  have fl: "\<lfloor>x\<rfloor> \<le> \<lfloor>y\<rfloor>" using xy by (rule floor_mono)
  show ?thesis
  proof (cases "\<lfloor>x\<rfloor> = \<lfloor>y\<rfloor>")
    case True
    then show ?thesis using xy unfolding rhe_def Let_def by auto
  next
    case False
    then have "\<lfloor>x\<rfloor> + 1 \<le> \<lfloor>y\<rfloor>" using fl by simp
    moreover have "rhe x \<le> \<lfloor>x\<rfloor> + 1" unfolding rhe_def Let_def by auto
    moreover have "\<lfloor>y\<rfloor> \<le> rhe y" unfolding rhe_def Let_def by auto
    ultimately show ?thesis by linarith
  qed
qed

lemma expo_ge1:
  assumes "1 \<le> \<bar>x\<bar>"
  shows "2 powi expo x \<le> \<bar>x\<bar>" and "\<bar>x\<bar> < 2 powi (expo x + 1)"
proof -
  define n where "n = \<lfloor>\<bar>x\<bar>\<rfloor>"
  have n1: "1 \<le> n" using assms by (simp add: n_def le_floor_iff)
  then have n0: "0 < n" by simp
  have b1: "1 \<le> bitlen n" using n0 by (simp add: bitlen_alt_def)
  have e: "expo x = bitlen n - 1" using assms by (simp add: expo_def n_def)
  from bitlen_bounds [OF n0] have lo: "2 ^ nat (bitlen n - 1) \<le> n" and hi: "n < 2 ^ nat (bitlen n)" by auto
  have "(2::rat) powi expo x = 2 ^ nat (bitlen n - 1)"
    using b1 by (simp add: e power_int_def)
  also have "\<dots> = of_int (2 ^ nat (bitlen n - 1))" by simp
  also have "\<dots> \<le> of_int n" using lo by (simp only: of_int_le_iff)
  also have "\<dots> \<le> \<bar>x\<bar>" by (simp add: n_def)
  finally show "2 powi expo x \<le> \<bar>x\<bar>" .
  have "\<bar>x\<bar> < of_int (n + 1)" unfolding n_def by linarith
  also have "\<dots> \<le> of_int (2 ^ nat (bitlen n))" using hi by (simp only: of_int_le_iff)
  also have "\<dots> = (2::rat) ^ nat (bitlen n)" by simp
  also have "\<dots> = 2 powi (expo x + 1)" using b1 by (simp add: e power_int_def)
  finally show "\<bar>x\<bar> < 2 powi (expo x + 1)" .
qed

lemma expo_lt1:
  assumes "x \<noteq> 0" "\<bar>x\<bar> < 1"
  shows "2 powi expo x \<le> \<bar>x\<bar>" and "\<bar>x\<bar> < 2 powi (expo x + 1)"
proof -
  define y where "y = 1 / \<bar>x\<bar>"
  define m where "m = \<lceil>y\<rceil> - 1"
  have xpos: "0 < \<bar>x\<bar>" using assms by simp
  have y1: "1 < y" using assms xpos by (simp add: y_def)
  have my: "of_int m < y" unfolding m_def by linarith
  have ym: "y \<le> of_int (m + 1)" by (simp add: m_def)
  have m1: "1 \<le> m" using y1 by (simp add: m_def)
  then have m0: "0 < m" by simp
  have b1: "1 \<le> bitlen m" using m0 by (simp add: bitlen_alt_def)
  have e: "expo x = - bitlen m" using assms by (simp add: expo_def m_def y_def)
  from bitlen_bounds [OF m0] have lo: "2 ^ nat (bitlen m - 1) \<le> m" and hi: "m < 2 ^ nat (bitlen m)" by auto
  have "y \<le> of_int (2 ^ nat (bitlen m))" using ym hi
    by (meson dual_order.trans of_int_le_iff zless_imp_add1_zle)
  then have yhi: "y \<le> 2 ^ nat (bitlen m)" by simp
  have "(2::rat) ^ nat (bitlen m - 1) = of_int (2 ^ nat (bitlen m - 1))" by simp
  also have "\<dots> \<le> of_int m" using lo by (simp only: of_int_le_iff)
  finally have ylo: "2 ^ nat (bitlen m - 1) < y" using my by linarith
  have p1: "(2::rat) powi expo x = 1 / 2 ^ nat (bitlen m)"
    using b1 by (simp add: e power_int_def field_simps)
  have p2: "(2::rat) powi (expo x + 1) = 1 / 2 ^ nat (bitlen m - 1)"
    using b1 by (simp add: e power_int_def field_simps nat_diff_distrib)
  show "2 powi expo x \<le> \<bar>x\<bar>"
    using yhi xpos unfolding p1 y_def by (simp add: field_simps)
  show "\<bar>x\<bar> < 2 powi (expo x + 1)"
    using ylo xpos unfolding p2 y_def by (simp add: field_simps)
qed

lemma expo_bounds:
  assumes "x \<noteq> 0"
  shows "2 powi expo x \<le> \<bar>x\<bar>" and "\<bar>x\<bar> < 2 powi (expo x + 1)"
  using assms expo_ge1 [of x] expo_lt1 [of x] by (cases "1 \<le> \<bar>x\<bar>"; simp)+

lemma expo_mono:
  assumes "0 < x" "x \<le> y"
  shows "expo x \<le> expo y"
proof -
  have "2 powi expo x \<le> \<bar>x\<bar>" using assms expo_bounds(1) [of x] by simp
  also have "\<dots> \<le> \<bar>y\<bar>" using assms by simp
  also have "\<dots> < 2 powi (expo y + 1)" using assms expo_bounds(2) [of y] by simp
  finally have "(2::rat) powi expo x < 2 powi (expo y + 1)" .
  then have lt: "(2::rat) powi expo x < 2 powi (expo y + 1)" .
  have "\<not> expo y + 1 \<le> expo x"
  proof
    assume "expo y + 1 \<le> expo x"
    then have "(2::rat) powi (expo y + 1) \<le> 2 powi expo x" by (rule power_int_increasing) simp
    with lt show False by simp
  qed
  then show ?thesis by simp
qed

lemma rgrid_mono:
  "x \<le> y \<Longrightarrow> of_int (rhe (x / 2 powi k)) * (2::rat) powi k \<le> of_int (rhe (y / 2 powi k)) * 2 powi k"
proof -
  assume "x \<le> y"
  have p: "(0::rat) < 2 powi k" by simp
  then have "x / 2 powi k \<le> y / 2 powi k" using \<open>x \<le> y\<close> by (simp add: divide_right_mono)
  then have "rhe (x / 2 powi k) \<le> rhe (y / 2 powi k)" by (rule rhe_mono)
  then show ?thesis using p by (simp add: mult_right_mono)
qed

lemma rgrid_fix:
  assumes "k \<le> m"
  shows "of_int (rhe (2 powi m / 2 powi k)) * (2::rat) powi k = 2 powi m"
proof -
  have "(2::rat) powi m / 2 powi k = 2 powi (m - k)" by (simp add: power_int_diff)
  also have "\<dots> = 2 ^ nat (m - k)" using assms by (simp add: power_int_def)
  also have "\<dots> = of_int (2 ^ nat (m - k))" by simp
  finally have "rhe ((2::rat) powi m / 2 powi k) = 2 ^ nat (m - k)" by (simp only: rhe_of_int)
  then have "of_int (rhe (2 powi m / 2 powi k)) * (2::rat) powi k = 2 ^ nat (m - k) * 2 powi k" by simp
  also have "\<dots> = 2 powi (m - k) * 2 powi k" using assms by (simp add: power_int_def)
  also have "\<dots> = 2 powi m" by (simp add: power_int_add [symmetric])
  finally show ?thesis .
qed

lemma rq_zero: "rq 0 = 0"
  by (simp add: rq_def rhe_def)

lemma rq_nonneg: "0 \<le> x \<Longrightarrow> 0 \<le> rq x"
proof -
  assume "0 \<le> x"
  then have "(0::rat) \<le> x / 2 powi ulp_exp x" by simp
  then have "rhe 0 \<le> rhe (x / 2 powi ulp_exp x)" by (rule rhe_mono)
  then have "0 \<le> rhe (x / 2 powi ulp_exp x)" by (simp add: rhe_def)
  then show ?thesis by (simp add: rq_def Let_def)
qed

lemma rq_mono_pos:
  assumes "0 < x" "x \<le> y"
  shows "rq x \<le> rq y"
proof -
  have ypos: "0 < y" using assms by simp
  have ee: "expo x \<le> expo y" using assms by (rule expo_mono)
  then have kk: "ulp_exp x \<le> ulp_exp y" by (simp add: ulp_exp_def)
  show ?thesis
  proof (cases "ulp_exp x = ulp_exp y")
    case True
    then show ?thesis unfolding rq_def Let_def using rgrid_mono [OF assms(2), of "ulp_exp y"] by simp
  next
    case False
    then have lt: "ulp_exp x < ulp_exp y" using kk by simp
    then have ky: "ulp_exp y = expo y - 52" and exy: "expo x < expo y"
      by (auto simp add: ulp_exp_def max_def split: if_splits)
    define m where "m = max (expo x + 1) (- 1074)"
    have kxm: "ulp_exp x \<le> m" by (simp add: ulp_exp_def m_def)
    have mey: "m \<le> expo y" using exy lt ky by (simp add: m_def ulp_exp_def)
    have kym: "ulp_exp y \<le> expo y" by (simp add: ky)
    have "x \<le> 2 powi (expo x + 1)" using assms expo_bounds(2) [of x] by simp
    also have "\<dots> \<le> 2 powi m" by (rule power_int_increasing) (simp_all add: m_def)
    finally have xm: "x \<le> 2 powi m" .
    have "rq x \<le> of_int (rhe (2 powi m / 2 powi ulp_exp x)) * 2 powi ulp_exp x"
      unfolding rq_def Let_def by (rule rgrid_mono [OF xm])
    also have "\<dots> = 2 powi m" using kxm by (rule rgrid_fix)
    also have "\<dots> \<le> 2 powi expo y" by (rule power_int_increasing) (simp_all add: mey)
    also have "\<dots> = of_int (rhe (2 powi expo y / 2 powi ulp_exp y)) * 2 powi ulp_exp y"
      using kym by (rule rgrid_fix [symmetric])
    also have "\<dots> \<le> rq y"
    proof -
      have "2 powi expo y \<le> y" using ypos expo_bounds(1) [of y] by simp
      then show ?thesis unfolding rq_def Let_def by (rule rgrid_mono)
    qed
    finally show ?thesis .
  qed
qed

lemma rq_mono: "0 \<le> x \<Longrightarrow> x \<le> y \<Longrightarrow> rq x \<le> rq y"
  using rq_mono_pos [of x y] rq_nonneg [of y] by (cases "x = 0") (simp_all add: rq_zero)

section \<open>Evaluating the arithmetic on numerals\<close>

lemma bitlen_numeral: "bitlen (numeral n) = bitlen (numeral n div 2) + 1"
  by (subst compute_bitlen) simp

lemma bitlen_one: "bitlen 1 = 1"
  by (subst compute_bitlen) simp

lemma floor_rat_numeral: "\<lfloor>numeral a / numeral b :: rat\<rfloor> = numeral a div numeral b"
  using floor_divide_of_int_eq [of "numeral a" "numeral b", where ?'a = rat] by simp

lemma ceiling_rat_numeral: "\<lceil>numeral a / numeral b :: rat\<rceil> = - (- numeral a div numeral b)"
  using floor_divide_of_int_eq [of "- numeral a" "numeral b", where ?'a = rat]
  by (simp add: ceiling_def)

lemmas rq_eval = rq_def ulp_exp_def expo_def rhe_def Let_def bitlen_numeral bitlen_one
  floor_rat_numeral ceiling_rat_numeral

lemma lit_005: "lit (5 / 100) = Fin (3602879701896397 / 72057594037927936)"
  by (simp add: lit_def rnd_def rq_eval)

lemma lit_red: "lit (2126 / 10000) = Fin (1914930561557935 / 9007199254740992)"
  by (simp add: lit_def rnd_def rq_eval)

lemma lit_green: "lit (7152 / 10000) = Fin (6441948906990757 / 9007199254740992)"
  by (simp add: lit_def rnd_def rq_eval)

lemma lit_blue: "lit (722 / 10000) = Fin (5202558289538397 / 72057594037927936)"
  by (simp add: lit_def rnd_def rq_eval)

lemma lit_255: "lit 255 = Fin 255"
  by (simp add: lit_def rnd_def rq_eval)

lemma rq_one: "rq 1 = 1"
  by (simp add: rq_eval)

lemma rq_1024: "rq 1024 = 1024"
  by (simp add: rq_eval)

lemma rq_005: "rq (3602879701896397 / 72057594037927936) = 3602879701896397 / 72057594037927936"
  by (simp add: rq_eval)

lemma rq_red: "rq (1914930561557935 / 9007199254740992) = 1914930561557935 / 9007199254740992"
  by (simp add: rq_eval)

lemma rq_green: "rq (6441948906990757 / 9007199254740992) = 6441948906990757 / 9007199254740992"
  by (simp add: rq_eval)

lemma rq_blue: "rq (5202558289538397 / 72057594037927936) = 5202558289538397 / 72057594037927936"
  by (simp add: rq_eval)

lemma rq_red_green:
  "rq (1914930561557935 / 9007199254740992 + 6441948906990757 / 9007199254740992)
     = 2089219867137173 / 2251799813685248"
  by (simp add: rq_eval)

lemma rq_white: "rq (2089219867137173 / 2251799813685248 + 5202558289538397 / 72057594037927936) = 1"
  by (simp add: rq_eval)

lemma rq_white_offset:
  "rq (1 + 3602879701896397 / 72057594037927936) = 4728779608739021 / 4503599627370496"
  by (simp add: rq_eval)

lemma rq_21:
  "rq ((4728779608739021 / 4503599627370496) / (3602879701896397 / 72057594037927936)) = 21"
  by (simp add: rq_eval)

section \<open>Arithmetic on non-negative finite Numbers\<close>

lemma rnd_fin:
  assumes "0 \<le> x" "x \<le> 1024"
  shows "rnd x = Fin (rq x)"
proof -
  have "0 \<le> rq x" using assms(1) by (rule rq_nonneg)
  moreover have "rq x \<le> 1024" using rq_mono [OF assms] by (simp add: rq_1024)
  ultimately have "\<bar>rq x\<bar> < 2 ^ 1024" by simp
  then show ?thesis using assms(1) by (simp add: rnd_def Let_def)
qed

lemma add_fin:
  "0 \<le> a \<Longrightarrow> 0 \<le> b \<Longrightarrow> a + b \<le> 1024 \<Longrightarrow> num_add (Fin a) (Fin b) = Fin (rq (a + b))"
  by (simp add: num_add_def rnd_fin)

lemma mul_fin:
  "0 \<le> a \<Longrightarrow> 0 \<le> b \<Longrightarrow> a * b \<le> 1024 \<Longrightarrow> num_mul (Fin a) (Fin b) = Fin (rq (a * b))"
  by (auto simp add: num_mul_def rnd_fin signed_zero_def rq_zero)

lemma div_fin:
  "0 \<le> a \<Longrightarrow> 0 < b \<Longrightarrow> a / b \<le> 1024 \<Longrightarrow> num_div (Fin a) (Fin b) = Fin (rq (a / b))"
  by (auto simp add: num_div_def rnd_fin signed_zero_def rq_zero)

lemma channel_range:
  assumes "0 \<le> r" "r \<le> 255"
  shows "\<exists>c. num_div (Fin r) (lit 255) = Fin c \<and> 0 \<le> c \<and> c \<le> 1"
proof -
  have q: "0 \<le> r / 255" "r / 255 \<le> 1" using assms by simp_all
  then have "num_div (Fin r) (lit 255) = Fin (rq (r / 255))"
    using assms by (simp add: lit_255 div_fin)
  moreover have "0 \<le> rq (r / 255)" using q(1) by (rule rq_nonneg)
  moreover have "rq (r / 255) \<le> 1" using rq_mono [OF q] by (simp add: rq_one)
  ultimately show ?thesis by blast
qed

lemma weight_range:
  assumes "0 \<le> w" "w \<le> 1" "rq w = w" "0 \<le> c" "c \<le> 1"
  shows "\<exists>s. num_mul (Fin w) (Fin c) = Fin s \<and> 0 \<le> s \<and> s \<le> w"
proof -
  have p: "0 \<le> w * c" "w * c \<le> w" using assms by (simp_all add: mult_left_le)
  then have "num_mul (Fin w) (Fin c) = Fin (rq (w * c))" using assms by (simp add: mul_fin)
  moreover have "0 \<le> rq (w * c)" using p(1) by (rule rq_nonneg)
  moreover have "rq (w * c) \<le> w" using rq_mono [OF p] by (simp add: assms(3))
  ultimately show ?thesis by blast
qed

lemma luminance_range:
  assumes "0 \<le> r" "r \<le> 255" "0 \<le> g" "g \<le> 255" "0 \<le> b" "b \<le> 255"
  shows "\<exists>l. relativeLuminance (normalizeColor (Fin r, Fin g, Fin b)) = Fin l \<and> 0 \<le> l \<and> l \<le> 1"
proof -
  obtain rn where rn: "num_div (Fin r) (lit 255) = Fin rn" "0 \<le> rn" "rn \<le> 1"
    using channel_range [OF assms(1,2)] by blast
  obtain gn where gn: "num_div (Fin g) (lit 255) = Fin gn" "0 \<le> gn" "gn \<le> 1"
    using channel_range [OF assms(3,4)] by blast
  obtain bn where bn: "num_div (Fin b) (lit 255) = Fin bn" "0 \<le> bn" "bn \<le> 1"
    using channel_range [OF assms(5,6)] by blast
  have "\<exists>s. num_mul (lit (2126 / 10000)) (Fin rn) = Fin s \<and> 0 \<le> s
      \<and> s \<le> 1914930561557935 / 9007199254740992"
    unfolding lit_red by (rule weight_range [OF _ _ rq_red rn(2,3)]) simp_all
  then obtain rs where rs: "num_mul (lit (2126 / 10000)) (Fin rn) = Fin rs" "0 \<le> rs"
      "rs \<le> 1914930561557935 / 9007199254740992"
    by blast
  have "\<exists>s. num_mul (lit (7152 / 10000)) (Fin gn) = Fin s \<and> 0 \<le> s
      \<and> s \<le> 6441948906990757 / 9007199254740992"
    unfolding lit_green by (rule weight_range [OF _ _ rq_green gn(2,3)]) simp_all
  then obtain gs where gs: "num_mul (lit (7152 / 10000)) (Fin gn) = Fin gs" "0 \<le> gs"
      "gs \<le> 6441948906990757 / 9007199254740992"
    by blast
  have "\<exists>s. num_mul (lit (722 / 10000)) (Fin bn) = Fin s \<and> 0 \<le> s
      \<and> s \<le> 5202558289538397 / 72057594037927936"
    unfolding lit_blue by (rule weight_range [OF _ _ rq_blue bn(2,3)]) simp_all
  then obtain bs where bs: "num_mul (lit (722 / 10000)) (Fin bn) = Fin bs" "0 \<le> bs"
      "bs \<le> 5202558289538397 / 72057594037927936"
    by blast
  define s where "s = rq (rs + gs)"
  have s1: "num_add (Fin rs) (Fin gs) = Fin s" using rs gs by (simp add: s_def add_fin)
  have s2: "0 \<le> s" using rs gs by (simp add: s_def rq_nonneg)
  have "rs + gs \<le> 1914930561557935 / 9007199254740992 + 6441948906990757 / 9007199254740992"
    using rs(3) gs(3) by (rule add_mono)
  then have "s \<le> rq (1914930561557935 / 9007199254740992 + 6441948906990757 / 9007199254740992)"
    unfolding s_def using rs(2) gs(2) by (intro rq_mono) simp_all
  then have s3: "s \<le> 2089219867137173 / 2251799813685248" by (simp only: rq_red_green)
  define l where "l = rq (s + bs)"
  have l1: "num_add (Fin s) (Fin bs) = Fin l" using s2 s3 bs by (simp add: l_def add_fin)
  have l2: "0 \<le> l" using s2 bs by (simp add: l_def rq_nonneg)
  have "s + bs \<le> 2089219867137173 / 2251799813685248 + 5202558289538397 / 72057594037927936"
    using s3 bs(3) by (rule add_mono)
  then have "l \<le> rq (2089219867137173 / 2251799813685248 + 5202558289538397 / 72057594037927936)"
    unfolding l_def using s2 bs(2) by (intro rq_mono) simp_all
  then have l3: "l \<le> 1" by (simp only: rq_white)
  have "relativeLuminance (normalizeColor (Fin r, Fin g, Fin b)) = Fin l"
    unfolding relativeLuminance_def normalizeColor_def Let_def
    by (simp only: prod.case rn gn bn rs gs bs s1 l1)
  then show ?thesis using l2 l3 by blast
qed

section \<open>The ratio of two luminances in \<open>[0, 1]\<close>\<close>

lemma offset_sum:
  assumes "0 \<le> a" "a \<le> 1" and d: "d = 3602879701896397 / 72057594037927936"
  shows "num_add (Fin a) (lit (5 / 100)) = Fin (rq (a + d))"
    and "d \<le> rq (a + d)"
    and "rq (a + d) \<le> 4728779608739021 / 4503599627370496"
proof -
  have d0: "0 \<le> d" by (simp add: d)
  have "a + d \<le> 1024" using assms by simp
  then show "num_add (Fin a) (lit (5 / 100)) = Fin (rq (a + d))"
    unfolding lit_005 d [symmetric] using assms(1) d0 by (simp add: add_fin)
  have "rq d \<le> rq (a + d)" using d0 assms(1) by (intro rq_mono) simp_all
  then show "d \<le> rq (a + d)" by (simp add: d rq_005)
  have "rq (a + d) \<le> rq (1 + d)" using d0 assms(1,2) by (intro rq_mono) simp_all
  then show "rq (a + d) \<le> 4728779608739021 / 4503599627370496"
    by (simp only: d rq_white_offset)
qed

lemma ratio_fin:
  assumes "0 \<le> a" "a \<le> b" "b \<le> 1" and d: "d = 3602879701896397 / 72057594037927936"
  shows "contrastRatio (Fin a) (Fin b) = Fin (rq (rq (b + d) / rq (a + d)))"
    and "contrastRatio (Fin b) (Fin a) = Fin (rq (rq (b + d) / rq (a + d)))"
proof -
  have a1: "a \<le> 1" and b0: "0 \<le> b" using assms by simp_all
  have mx: "math_max (Fin a) (Fin b) = Fin b" "math_max (Fin b) (Fin a) = Fin b"
    using assms(2) by (auto simp add: math_max_def)
  have mn: "math_min (Fin a) (Fin b) = Fin a" "math_min (Fin b) (Fin a) = Fin a"
    using assms(2) by (auto simp add: math_min_def)
  note A = offset_sum [OF assms(1) a1 d]
  note B = offset_sum [OF b0 assms(3) d]
  have dpos: "0 < d" by (simp add: d)
  have Apos: "0 < rq (a + d)" using A(2) dpos by simp
  have Bpos: "0 \<le> rq (b + d)" using B(2) dpos by simp
  have "rq (b + d) / rq (a + d) \<le> (4728779608739021 / 4503599627370496) / d"
    using B(3) A(2) dpos Apos by (intro frac_le) simp_all
  also have "\<dots> \<le> 1024" by (simp add: d)
  finally have le: "rq (b + d) / rq (a + d) \<le> 1024" .
  have dv: "num_div (Fin (rq (b + d))) (Fin (rq (a + d))) = Fin (rq (rq (b + d) / rq (a + d)))"
    using Bpos Apos le by (rule div_fin)
  show "contrastRatio (Fin a) (Fin b) = Fin (rq (rq (b + d) / rq (a + d)))"
    unfolding contrastRatio_def Let_def by (simp only: mx mn A(1) B(1) dv)
  show "contrastRatio (Fin b) (Fin a) = Fin (rq (rq (b + d) / rq (a + d)))"
    unfolding contrastRatio_def Let_def by (simp only: mx mn A(1) B(1) dv)
qed

lemma ratio_value_range:
  assumes "0 \<le> a" "a \<le> b" "b \<le> 1" and d: "d = 3602879701896397 / 72057594037927936"
  shows "1 \<le> rq (rq (b + d) / rq (a + d))" and "rq (rq (b + d) / rq (a + d)) \<le> 21"
proof -
  have a1: "a \<le> 1" and b0: "0 \<le> b" using assms by simp_all
  note A = offset_sum [OF assms(1) a1 d]
  note B = offset_sum [OF b0 assms(3) d]
  have dpos: "0 < d" by (simp add: d)
  have Apos: "0 < rq (a + d)" using A(2) dpos by simp
  have Bpos: "0 \<le> rq (b + d)" using B(2) dpos by simp
  have AB: "rq (a + d) \<le> rq (b + d)" using assms(1,2) dpos by (intro rq_mono) simp_all
  then have "1 \<le> rq (b + d) / rq (a + d)" using Apos by simp
  then have "rq 1 \<le> rq (rq (b + d) / rq (a + d))" by (intro rq_mono) simp_all
  then show "1 \<le> rq (rq (b + d) / rq (a + d))" by (simp only: rq_one)
  have q0: "0 \<le> rq (b + d) / rq (a + d)" using Apos Bpos by simp
  have "rq (b + d) / rq (a + d) \<le> (4728779608739021 / 4503599627370496) / d"
    using B(3) A(2) dpos Apos by (intro frac_le) simp_all
  then have "rq (rq (b + d) / rq (a + d)) \<le> rq ((4728779608739021 / 4503599627370496) / d)"
    using q0 by (intro rq_mono)
  then show "rq (rq (b + d) / rq (a + d)) \<le> 21" by (simp only: d rq_21)
qed

lemma ratio_range:
  assumes "0 \<le> a" "a \<le> 1" "0 \<le> b" "b \<le> 1"
  shows "\<exists>v. contrastRatio (Fin a) (Fin b) = Fin v \<and> 1 \<le> v \<and> v \<le> 21"
proof (cases "a \<le> b")
  case True
  from ratio_fin(1) [OF assms(1) True assms(4) refl] ratio_value_range [OF assms(1) True assms(4) refl]
  show ?thesis by blast
next
  case False
  then have ba: "b \<le> a" by simp
  from ratio_fin(2) [OF assms(3) ba assms(2) refl] ratio_value_range [OF assms(3) ba assms(2) refl]
  show ?thesis by blast
qed

lemma ratio_same:
  assumes "0 \<le> a" "a \<le> 1"
  shows "contrastRatio (Fin a) (Fin a) = Fin 1"
proof -
  define d :: rat where "d = 3602879701896397 / 72057594037927936"
  have "0 < d" by (simp add: d_def)
  then have "0 < rq (a + d)" using offset_sum(2) [OF assms d_def] by simp
  then have "rq (a + d) / rq (a + d) = 1" by simp
  then show ?thesis using ratio_fin(1) [OF assms(1) order_refl assms(2) d_def] by (simp add: rq_one)
qed

section \<open>Parsing valid hex colors\<close>

lemma hex_digit_props:
  assumes "hex_digit c = Some d"
  shows "d \<le> 15" and "\<not> is_space c" and "c \<noteq> 0x2D" and "c \<noteq> 0x2B" and "c \<noteq> 0x78" and "c \<noteq> 0x58"
proof -
  show "d \<le> 15"
    using assms unfolding hex_digit_def
    by (auto split: if_splits simp add: word_le_nat_alt)
  show "\<not> is_space c"
    using assms unfolding hex_digit_def is_space_def
    by (auto split: if_splits simp add: word_le_nat_alt)
  show "c \<noteq> 0x2D" "c \<noteq> 0x2B" "c \<noteq> 0x78" "c \<noteq> 0x58"
    using assms unfolding hex_digit_def by (auto split: if_splits)
qed

lemma rq_of_nat:
  assumes "n < 2 ^ 53"
  shows "rq (of_nat n) = of_nat n"
proof (cases "n = 0")
  case True
  then show ?thesis by (simp add: rq_zero)
next
  case False
  define x :: rat where "x = of_nat n"
  define k where "k = ulp_exp x"
  have xpos: "0 < x" using False by (simp add: x_def)
  have "x < of_nat (2 ^ 53)" unfolding x_def using assms by (simp only: of_nat_less_iff)
  then have x53: "x < 2 powi 53" by simp
  have "2 powi expo x \<le> x" using xpos expo_bounds(1) [of x] by simp
  then have lt: "(2::rat) powi expo x < 2 powi 53" using x53 by simp
  have "\<not> 53 \<le> expo x"
  proof
    assume "53 \<le> expo x"
    then have "(2::rat) powi 53 \<le> 2 powi expo x" by (rule power_int_increasing) simp
    with lt show False by simp
  qed
  then have k0: "k \<le> 0" by (simp add: k_def ulp_exp_def)
  have pk: "(2::rat) powi k = 1 / 2 ^ nat (- k)"
    using k0 by (cases "k = 0") (simp_all add: power_int_def field_simps)
  have "x / 2 powi k = of_int (int n * 2 ^ nat (- k))" by (simp add: pk x_def)
  then have "rhe (x / 2 powi k) = int n * 2 ^ nat (- k)" by (simp only: rhe_of_int)
  then have "rq x = x" unfolding rq_def Let_def k_def [symmetric] by (simp add: pk x_def)
  then show ?thesis by (simp add: x_def)
qed

lemma rnd_of_nat:
  assumes "n \<le> 255"
  shows "rnd (of_nat n) = Fin (of_nat n)"
proof -
  have "(of_nat n :: rat) \<le> of_nat 255" using assms by (simp only: of_nat_le_iff)
  then have "(of_nat n :: rat) \<le> 1024" by simp
  moreover have "n < 2 ^ 53" using assms by simp
  ultimately show ?thesis by (simp add: rnd_fin rq_of_nat)
qed

lemma parse_digits:
  assumes "digit_prefix (strip_prefix s) = ds" "ds \<noteq> []" "digits_value ds \<le> 255"
    and "\<not> is_space (hd s)" "hd s \<noteq> 0x2D" "hd s \<noteq> 0x2B" "s \<noteq> []"
  shows "parseInt16 s = Fin (of_nat (digits_value ds))"
proof -
  obtain c cs where s: "s = c # cs" using assms(7) by (cases s) auto
  have "dropWhile is_space s = s" using assms(4) by (simp add: s)
  moreover have "strip_sign s = (False, s)" using assms(5,6) by (simp add: s strip_sign_def)
  ultimately show ?thesis
    using assms(1,2,3) by (simp add: parseInt16_def Let_def signed_zero_def rnd_of_nat)
qed

lemma parse_one:
  assumes "hex_digit a = Some d"
  shows "parseInt16 [a] = Fin (of_nat d)" and "d \<le> 255"
proof -
  note P = hex_digit_props [OF assms]
  show "d \<le> 255" using P(1) by simp
  have "parseInt16 [a] = Fin (of_nat (digits_value [d]))"
    using P by (intro parse_digits) (simp_all add: strip_prefix_def assms digits_value_def)
  then show "parseInt16 [a] = Fin (of_nat d)" by (simp add: digits_value_def)
qed

lemma parse_two:
  assumes "hex_digit a = Some d" "hex_digit b = Some e"
  shows "parseInt16 [a, b] = Fin (of_nat (16 * d + e))" and "16 * d + e \<le> 255"
proof -
  note P = hex_digit_props [OF assms(1)]
  note Q = hex_digit_props [OF assms(2)]
  show le: "16 * d + e \<le> 255" using P(1) Q(1) by simp
  have "parseInt16 [a, b] = Fin (of_nat (digits_value [d, e]))"
    using P Q le by (intro parse_digits) (simp_all add: strip_prefix_def assms digits_value_def)
  then show "parseInt16 [a, b] = Fin (of_nat (16 * d + e))" by (simp add: digits_value_def)
qed

lemma toRGB_valid:
  assumes "valid_hex_color s"
  shows "\<exists>r g b. toRGB_hex s = (Fin (of_nat r), Fin (of_nat g), Fin (of_nat b))
           \<and> r \<le> 255 \<and> g \<le> 255 \<and> b \<le> 255"
proof -
  obtain c cs where s: "s = c # cs" and len: "length cs = 3 \<or> length cs = 6"
    and hex: "list_all (\<lambda>d. hex_digit d \<noteq> None) cs"
    using assms by (cases s) (auto simp add: valid_hex_color_def)
  from len show ?thesis
  proof
    assume "length cs = 3"
    then obtain x y z where cs: "cs = [x, y, z]"
      by (auto simp add: length_Suc_conv numeral_3_eq_3)
    obtain dx dy dz where d: "hex_digit x = Some dx" "hex_digit y = Some dy" "hex_digit z = Some dz"
      using hex by (auto simp add: cs)
    have "toRGB_hex s = (parseInt16 [x], parseInt16 [y], parseInt16 [z])"
      by (simp add: toRGB_hex_def s cs substr_def)
    then show ?thesis
      using parse_one [OF d(1)] parse_one [OF d(2)] parse_one [OF d(3)] by auto
  next
    assume "length cs = 6"
    then obtain x1 x2 y1 y2 z1 z2 where cs: "cs = [x1, x2, y1, y2, z1, z2]"
      by (auto simp add: length_Suc_conv eval_nat_numeral)
    obtain a1 a2 b1 b2 c1 c2 where d: "hex_digit x1 = Some a1" "hex_digit x2 = Some a2"
        "hex_digit y1 = Some b1" "hex_digit y2 = Some b2"
        "hex_digit z1 = Some c1" "hex_digit z2 = Some c2"
      using hex by (auto simp add: cs)
    have "toRGB_hex s = (parseInt16 [x1, x2], parseInt16 [y1, y2], parseInt16 [z1, z2])"
      by (simp add: toRGB_hex_def s cs substr_def)
    then have "toRGB_hex s = (Fin (of_nat (16 * a1 + a2)), Fin (of_nat (16 * b1 + b2)),
        Fin (of_nat (16 * c1 + c2)))"
      by (simp only: parse_two(1) [OF d(1,2)] parse_two(1) [OF d(3,4)] parse_two(1) [OF d(5,6)])
    then show ?thesis
      using parse_two(2) [OF d(1,2)] parse_two(2) [OF d(3,4)] parse_two(2) [OF d(5,6)] by blast
  qed
qed

lemma luminance_valid:
  assumes "valid_hex_color s"
  shows "\<exists>l. luminance_of s = Fin l \<and> 0 \<le> l \<and> l \<le> 1"
proof -
  obtain r g b where rgb: "toRGB_hex s = (Fin (of_nat r), Fin (of_nat g), Fin (of_nat b))"
    and le: "r \<le> 255" "g \<le> 255" "b \<le> 255"
    using toRGB_valid [OF assms] by blast
  have up: "(of_nat n :: rat) \<le> 255" if "n \<le> 255" for n
    using that of_nat_le_iff [of n 255, where ?'a = rat] by simp
  have "\<exists>l. relativeLuminance (normalizeColor (Fin (of_nat r), Fin (of_nat g), Fin (of_nat b))) = Fin l
          \<and> 0 \<le> l \<and> l \<le> 1"
    using le by (intro luminance_range up) simp_all
  then show ?thesis by (simp add: luminance_of_def rgb)
qed

section \<open>Concrete colors\<close>

lemmas parse_eval = js_str_def toRGB_hex_def substr_def parseInt16_def is_space_def hex_digit_def
  strip_sign_def strip_prefix_def digits_value_def signed_zero_def

lemma rgb_white: "toRGB_hex (js_str ''#ffffff'') = (Fin 255, Fin 255, Fin 255)"
  by (simp add: parse_eval rnd_def rq_eval)

lemma rgb_black: "toRGB_hex (js_str ''#000000'') = (Fin 0, Fin 0, Fin 0)"
  by (simp add: parse_eval rnd_def rq_eval)

lemma rgb_fff: "toRGB_hex (js_str ''#fff'') = (Fin 15, Fin 15, Fin 15)"
  by (simp add: parse_eval rnd_def rq_eval)

lemma valid_white: "valid_hex_color (js_str ''#ffffff'')"
  by (simp add: valid_hex_color_def js_str_def hex_digit_def)

lemma valid_black: "valid_hex_color (js_str ''#000000'')"
  by (simp add: valid_hex_color_def js_str_def hex_digit_def)

lemma valid_fff: "valid_hex_color (js_str ''#fff'')"
  by (simp add: valid_hex_color_def js_str_def hex_digit_def)

lemma expand_fff: "expand_shorthand (js_str ''#fff'') = js_str ''#ffffff''"
  by (simp add: expand_shorthand_def js_str_def)

lemma norm_white: "normalizeColor (Fin 255, Fin 255, Fin 255) = (Fin 1, Fin 1, Fin 1)"
  unfolding normalizeColor_def lit_255 by (simp add: num_div_def rnd_def rq_eval)

lemma norm_black: "normalizeColor (Fin 0, Fin 0, Fin 0) = (Fin 0, Fin 0, Fin 0)"
  unfolding normalizeColor_def lit_255 by (simp add: num_div_def signed_zero_def)

lemma norm_15:
  "normalizeColor (Fin 15, Fin 15, Fin 15) =
     (Fin (4238682002231055 / 72057594037927936), Fin (4238682002231055 / 72057594037927936),
      Fin (4238682002231055 / 72057594037927936))"
  unfolding normalizeColor_def lit_255 by (simp add: num_div_def rnd_def rq_eval)

lemma lum_white: "relativeLuminance (Fin 1, Fin 1, Fin 1) = Fin 1"
  unfolding relativeLuminance_def lit_red lit_green lit_blue
  by (simp add: num_mul_def num_add_def rnd_def rq_eval)

lemma lum_black: "relativeLuminance (Fin 0, Fin 0, Fin 0) = Fin 0"
  unfolding relativeLuminance_def lit_red lit_green lit_blue
  by (simp add: num_mul_def num_add_def signed_zero_def rnd_def rq_eval)

lemma lum_15:
  "relativeLuminance
     (Fin (4238682002231055 / 72057594037927936), Fin (4238682002231055 / 72057594037927936),
      Fin (4238682002231055 / 72057594037927936)) = Fin (4238682002231055 / 72057594037927936)"
  unfolding relativeLuminance_def lit_red lit_green lit_blue
  by (simp add: num_mul_def num_add_def rnd_def rq_eval)

lemma luminance_white: "luminance_of (js_str ''#ffffff'') = Fin 1"
  by (simp add: luminance_of_def rgb_white norm_white lum_white)

lemma luminance_black: "luminance_of (js_str ''#000000'') = Fin 0"
  by (simp add: luminance_of_def rgb_black norm_black lum_black)

lemma luminance_fff:
  "luminance_of (js_str ''#fff'') = Fin (4238682002231055 / 72057594037927936)"
  by (simp add: luminance_of_def rgb_fff norm_15 lum_15)

lemma ratio_black_white: "contrastRatio (Fin 0) (Fin 1) = Fin 21"
  unfolding contrastRatio_def lit_005
  by (simp add: math_max_def math_min_def num_add_def num_div_def rnd_def rq_eval)

lemma ratio_15_black:
  "contrastRatio (Fin (4238682002231055 / 72057594037927936)) (Fin 0)
     = Fin (4900976065079657 / 2251799813685248)"
  unfolding contrastRatio_def lit_005
  by (simp add: math_max_def math_min_def num_add_def num_div_def rnd_def rq_eval)

section \<open>The entry point\<close>

lemma checkTextContrast_eq:
  assumes "color (style text) = Some c1"
    and "backgroundColor (style (case bg of None \<Rightarrow> text | Some b \<Rightarrow> b)) = Some c2"
  shows "checkTextContrast app text bg = Inr (contrastRatio (luminance_of c1) (luminance_of c2))"
  using assms by (simp add: checkTextContrast_def luminance_of_def Let_def)

lemma same_rgb_ratio:
  assumes "toRGB_hex c = (Fin r, Fin g, Fin b)"
    and "0 \<le> r" "r \<le> 255" "0 \<le> g" "g \<le> 255" "0 \<le> b" "b \<le> 255"
    and "color (style text) = Some c" "backgroundColor (style text) = Some c"
  shows "checkTextContrast app text None = Inr (Fin 1)"
proof -
  obtain l where l: "relativeLuminance (normalizeColor (Fin r, Fin g, Fin b)) = Fin l"
      "0 \<le> l" "l \<le> 1"
    using luminance_range [OF assms(2-7)] by blast
  have "luminance_of c = Fin l" by (simp add: luminance_of_def assms(1) l(1))
  moreover have "checkTextContrast app text None
      = Inr (contrastRatio (luminance_of c) (luminance_of c))"
    using assms(8,9) by (intro checkTextContrast_eq) simp_all
  ultimately show ?thesis using l(2,3) by (simp add: ratio_same)
qed

subsection \<open>\<open>Math.max\<close>, \<open>Math.min\<close> and not-a-number\<close>

lemma math_max_sym: "math_max x y = math_max y x"
  by (cases x; cases y) (auto simp add: math_max_def)

lemma math_min_sym: "math_min x y = math_min y x"
  by (cases x; cases y) (auto simp add: math_min_def)

lemma rnd_not_nan: "rnd x \<noteq> NaN"
  by (simp add: rnd_def Let_def)

lemma parseInt16_nan_iff:
  "parseInt16 s = NaN \<longleftrightarrow>
     digit_prefix (strip_prefix (snd (strip_sign (dropWhile is_space s)))) = []"
  by (cases "strip_sign (dropWhile is_space s)")
     (simp add: parseInt16_def Let_def signed_zero_def rnd_not_nan)

lemma luminance_nan:
  assumes "has_nan c"
  shows "relativeLuminance (normalizeColor c) = NaN"
proof -
  obtain r g b where c: "c = (r, g, b)" by (cases c) auto
  have d: "num_div NaN y = NaN" for y by (simp add: num_div_def)
  have m: "num_mul x NaN = NaN" for x by (simp add: num_mul_def)
  have a: "num_add NaN y = NaN" "num_add x NaN = NaN" for x y by (simp_all add: num_add_def)
  from assms have "r = NaN \<or> g = NaN \<or> b = NaN" by (simp add: has_nan_def c)
  then show ?thesis
    unfolding c relativeLuminance_def normalizeColor_def Let_def prod.case
    by (elim disjE) (simp_all only: d m a)
qed

lemma ratio_nan: "contrastRatio NaN y = NaN" "contrastRatio x NaN = NaN"
  by (simp_all add: contrastRatio_def math_max_def math_min_def num_add_def num_div_def)

subsection \<open>Luminances in the unit interval\<close>

lemma ratio_of_val:
  assumes "in_unit x" "in_unit y"
  shows "contrastRatio x y = contrastRatio (Fin (val x)) (Fin (val y))"
  using assms unfolding contrastRatio_def lit_005 Let_def
  by (cases x; cases y) (auto simp add: in_unit_def math_max_def math_min_def num_add_def)

lemma in_unit_val: "in_unit x \<Longrightarrow> 0 \<le> val x \<and> val x \<le> 1"
  by (cases x) (simp_all add: in_unit_def)

lemma ratio_mono_above:
  assumes "0 \<le> a" "a \<le> x1" "x1 \<le> x2" "x2 \<le> 1"
  shows "\<exists>v1 v2. contrastRatio (Fin x1) (Fin a) = Fin v1 \<and> contrastRatio (Fin x2) (Fin a) = Fin v2
           \<and> v1 \<le> v2"
proof -
  define d :: rat where "d = 3602879701896397 / 72057594037927936"
  have dpos: "0 < d" by (simp add: d_def)
  have a1: "a \<le> 1" and x0: "0 \<le> x1" and x11: "x1 \<le> 1" and ax2: "a \<le> x2" using assms by simp_all
  have Apos: "0 < rq (a + d)" using offset_sum(2) [OF assms(1) a1 d_def] dpos by simp
  have N0: "0 \<le> rq (x1 + d)" using x0 dpos by (intro rq_nonneg) simp
  have "rq (x1 + d) \<le> rq (x2 + d)" using x0 dpos assms(3) by (intro rq_mono) simp_all
  then have "rq (x1 + d) / rq (a + d) \<le> rq (x2 + d) / rq (a + d)"
    using Apos by (simp add: divide_right_mono)
  moreover have "0 \<le> rq (x1 + d) / rq (a + d)" using N0 Apos by simp
  ultimately have "rq (rq (x1 + d) / rq (a + d)) \<le> rq (rq (x2 + d) / rq (a + d))"
    by (intro rq_mono)
  then show ?thesis
    using ratio_fin(2) [OF assms(1,2) x11 d_def] ratio_fin(2) [OF assms(1) ax2 assms(4) d_def]
    by blast
qed

lemma ratio_mono_below:
  assumes "0 \<le> x2" "x2 \<le> x1" "x1 \<le> a" "a \<le> 1"
  shows "\<exists>v1 v2. contrastRatio (Fin x1) (Fin a) = Fin v1 \<and> contrastRatio (Fin x2) (Fin a) = Fin v2
           \<and> v1 \<le> v2"
proof -
  define d :: rat where "d = 3602879701896397 / 72057594037927936"
  have dpos: "0 < d" by (simp add: d_def)
  have x0: "0 \<le> x1" and x21: "x2 \<le> 1" and x2a: "x2 \<le> a" and a0: "0 \<le> a"
    using assms by simp_all
  have D2: "0 < rq (x2 + d)" using offset_sum(2) [OF assms(1) x21 d_def] dpos by simp
  have N0: "0 \<le> rq (a + d)" using a0 dpos by (intro rq_nonneg) simp
  have "rq (x2 + d) \<le> rq (x1 + d)" using assms(1,2) dpos by (intro rq_mono) simp_all
  then have "rq (a + d) / rq (x1 + d) \<le> rq (a + d) / rq (x2 + d)"
    using D2 N0 by (intro frac_le) simp_all
  moreover have "0 \<le> rq (x1 + d)" using x0 dpos by (intro rq_nonneg) simp
  then have "0 \<le> rq (a + d) / rq (x1 + d)" using N0 by simp
  ultimately have "rq (rq (a + d) / rq (x1 + d)) \<le> rq (rq (a + d) / rq (x2 + d))"
    by (intro rq_mono)
  then show ?thesis
    using ratio_fin(1) [OF x0 assms(3,4) d_def] ratio_fin(1) [OF assms(1) x2a assms(4) d_def]
    by blast
qed

lemma ratio_white_black: "contrastRatio (Fin 1) (Fin 0) = Fin 21"
  unfolding contrastRatio_def lit_005
  by (simp add: math_max_def math_min_def num_add_def num_div_def rnd_def rq_eval)

lemma elem_simps: "color (style (elem c b)) = c" "backgroundColor (style (elem c b)) = b"
  by (simp_all add: elem_def)

section \<open>The claims\<close>

text \<open>
  C1. Replacing a shorthand color by its expanded form on one side of a comparison should
  not change the result. The code does not expand shorthand digits: \<open>toRGB.hex\<close> reads
  \<open>#fff\<close> as the channels \<open>15, 15, 15\<close> and \<open>normalizeColor\<close> still divides by 255, so
  \<open>#fff\<close> on black gives about 2.18 where \<open>#ffffff\<close> on black gives 21.
\<close>

theorem shorthand_not_expanded:
  "checkTextContrast () (elem (Some (js_str ''#fff'')) None)
       (Some (elem None (Some (js_str ''#000000''))))
     = Inr (Fin (4900976065079657 / 2251799813685248))
   \<and> checkTextContrast () (elem (Some (expand_shorthand (js_str ''#fff''))) None)
       (Some (elem None (Some (js_str ''#000000''))))
     = Inr (Fin 21)
   \<and> valid_hex_color (js_str ''#fff'') \<and> valid_hex_color (js_str ''#000000'')"
proof -
  have "checkTextContrast () (elem (Some (js_str ''#fff'')) None)
       (Some (elem None (Some (js_str ''#000000''))))
     = Inr (contrastRatio (Fin (4238682002231055 / 72057594037927936)) (Fin 0))"
    unfolding luminance_fff [symmetric] luminance_black [symmetric]
    by (rule checkTextContrast_eq) (simp_all add: elem_simps)
  moreover have "checkTextContrast () (elem (Some (expand_shorthand (js_str ''#fff''))) None)
       (Some (elem None (Some (js_str ''#000000''))))
     = Inr (contrastRatio (Fin 1) (Fin 0))"
    unfolding luminance_white [symmetric] luminance_black [symmetric]
    by (rule checkTextContrast_eq) (simp_all add: elem_simps expand_fff)
  ultimately show ?thesis
    by (simp only: ratio_15_black ratio_white_black valid_fff valid_black simp_thms)
qed

text \<open>
  C2. For valid hex colors as the text color and the background color (the background
  being the text element itself when the argument is omitted), \<open>checkTextContrast\<close>
  returns a finite Number that is at least 1 and at most 21.
\<close>

theorem contrast_in_range:
  assumes "color (style text) = Some c1"
    and "backgroundColor (style (case bg of None \<Rightarrow> text | Some b \<Rightarrow> b)) = Some c2"
    and "valid_hex_color c1" and "valid_hex_color c2"
  shows "\<exists>v. checkTextContrast app text bg = Inr (Fin v) \<and> 1 \<le> v \<and> v \<le> 21"
proof -
  obtain l1 where l1: "luminance_of c1 = Fin l1" "0 \<le> l1" "l1 \<le> 1"
    using luminance_valid [OF assms(3)] by blast
  obtain l2 where l2: "luminance_of c2 = Fin l2" "0 \<le> l2" "l2 \<le> 1"
    using luminance_valid [OF assms(4)] by blast
  have "checkTextContrast app text bg = Inr (contrastRatio (Fin l1) (Fin l2))"
    unfolding l1(1) [symmetric] l2(1) [symmetric] using assms(1,2) by (rule checkTextContrast_eq)
  then show ?thesis using ratio_range [OF l1(2,3) l2(2,3)] by auto
qed

theorem contrast_in_range_witness:
  "valid_hex_color (js_str ''#000000'') \<and> valid_hex_color (js_str ''#ffffff'')
   \<and> (\<exists>v. checkTextContrast () (elem (Some (js_str ''#000000'')) None)
         (Some (elem None (Some (js_str ''#ffffff'')))) = Inr (Fin v) \<and> 1 \<le> v \<and> v \<le> 21)"
  using contrast_in_range [OF _ _ valid_black valid_white,
      of "elem (Some (js_str ''#000000'')) None" "Some (elem None (Some (js_str ''#ffffff'')))" "()"]
  by (simp add: elem_simps valid_black valid_white)

text \<open>
  C3. A text element with color \<open>#000000\<close> on a background element with backgroundColor
  \<open>#ffffff\<close> gives exactly 21.
\<close>

theorem black_on_white:
  assumes "color (style text) = Some (js_str ''#000000'')"
    and "backgroundColor (style background) = Some (js_str ''#ffffff'')"
  shows "checkTextContrast app text (Some background) = Inr (Fin 21)"
proof -
  have "checkTextContrast app text (Some background) = Inr (contrastRatio (Fin 0) (Fin 1))"
    unfolding luminance_white [symmetric] luminance_black [symmetric]
    using assms by (intro checkTextContrast_eq) simp_all
  then show ?thesis by (simp only: ratio_black_white)
qed

theorem black_on_white_witness:
  "checkTextContrast () (elem (Some (js_str ''#000000'')) None)
     (Some (elem None (Some (js_str ''#ffffff'')))) = Inr (Fin 21)"
  by (rule black_on_white) (simp_all add: elem_simps)

text \<open>
  C4. When the text color and the background color are the same valid hex color, the
  result is exactly 1.
\<close>

theorem same_color_is_one:
  assumes "valid_hex_color c"
    and "color (style text) = Some c"
    and "backgroundColor (style (case bg of None \<Rightarrow> text | Some b \<Rightarrow> b)) = Some c"
  shows "checkTextContrast app text bg = Inr (Fin 1)"
proof -
  obtain l where l: "luminance_of c = Fin l" "0 \<le> l" "l \<le> 1"
    using luminance_valid [OF assms(1)] by blast
  have "checkTextContrast app text bg = Inr (contrastRatio (Fin l) (Fin l))"
    unfolding l(1) [symmetric] using assms(2,3) by (rule checkTextContrast_eq)
  then show ?thesis using l(2,3) by (simp add: ratio_same)
qed

theorem same_color_is_one_witness:
  "valid_hex_color (js_str ''#fff'')
   \<and> checkTextContrast () (elem (Some (js_str ''#fff'')) (Some (js_str ''#fff''))) None
       = Inr (Fin 1)"
  using same_color_is_one [OF valid_fff,
      of "elem (Some (js_str ''#fff'')) (Some (js_str ''#fff''))" None "()"]
  by (simp add: elem_simps valid_fff)

text \<open>
  C5. \<open>contrastRatio\<close> is symmetric: for all Numbers \<open>l1\<close> and \<open>l2\<close> (not-a-number, the
  infinities and both zeros included), \<open>contrastRatio l1 l2\<close> and \<open>contrastRatio l2 l1\<close> are
  the same value.
\<close>

theorem contrastRatio_symmetric: "contrastRatio l1 l2 = contrastRatio l2 l1"
  by (simp add: contrastRatio_def math_max_sym [of l1 l2] math_min_sym [of l1 l2])

theorem contrastRatio_symmetric_witness:
  "contrastRatio (Fin 0) (Fin 1) = contrastRatio (Fin 1) (Fin 0)"
  by (rule contrastRatio_symmetric)

text \<open>
  C6 as stated: for luminances \<open>b\<close>, \<open>f1\<close>, \<open>f2\<close> in \<open>[0, 1]\<close>, if \<open>f2\<close> is strictly further
  from \<open>b\<close> than \<open>f1\<close> then \<open>contrastRatio f2 b\<close> is strictly greater than
  \<open>contrastRatio f1 b\<close>. This fails in two ways. Across the two sides of \<open>b\<close> the ratio
  is not a function of the distance: with \<open>b = 1/2\<close>, \<open>f1 = 1/8\<close> is nearer than \<open>f2 = 1\<close>
  and has the larger ratio. On one side, rounding can merge two ratios: with \<open>b = 1\<close>,
  \<open>f1 = 2\<^sup>-\<^sup>6\<^sup>0\<close> and \<open>f2 = 0\<close> both give 21.
\<close>

theorem monotonicity_counterexample:
  "in_unit (Fin (1 / 2)) \<and> in_unit (Fin (1 / 8)) \<and> in_unit (Fin 1)
   \<and> \<bar>val (Fin (1 / 8)) - val (Fin (1 / 2))\<bar> < \<bar>val (Fin 1) - val (Fin (1 / 2))\<bar>
   \<and> \<not> num_lt (contrastRatio (Fin (1 / 8)) (Fin (1 / 2))) (contrastRatio (Fin 1) (Fin (1 / 2)))
   \<and> in_unit (Fin (1 / 1152921504606846976)) \<and> in_unit (Fin 0)
   \<and> \<bar>val (Fin (1 / 1152921504606846976)) - val (Fin 1)\<bar> < \<bar>val (Fin 0) - val (Fin 1)\<bar>
   \<and> \<not> num_lt (contrastRatio (Fin (1 / 1152921504606846976)) (Fin 1)) (contrastRatio (Fin 0) (Fin 1))"
proof -
  have a: "contrastRatio (Fin (1 / 8)) (Fin (1 / 2)) = Fin (3538542564362533 / 1125899906842624)"
    unfolding contrastRatio_def lit_005
    by (simp add: math_max_def math_min_def num_add_def num_div_def rnd_def rq_eval)
  have b: "contrastRatio (Fin 1) (Fin (1 / 2)) = Fin (8597781106798219 / 4503599627370496)"
    unfolding contrastRatio_def lit_005
    by (simp add: math_max_def math_min_def num_add_def num_div_def rnd_def rq_eval)
  have c: "contrastRatio (Fin (1 / 1152921504606846976)) (Fin 1) = Fin 21"
    unfolding contrastRatio_def lit_005
    by (simp add: math_max_def math_min_def num_add_def num_div_def rnd_def rq_eval)
  show ?thesis unfolding a b c ratio_black_white by (simp add: in_unit_def)
qed

text \<open>
  C6, amended: for luminances \<open>b\<close>, \<open>f1\<close>, \<open>f2\<close> in \<open>[0, 1]\<close> with \<open>f1\<close> between \<open>b\<close> and
  \<open>f2\<close> (so \<open>f2\<close> is at least as far from \<open>b\<close> as \<open>f1\<close>, on the same side), both ratios
  are finite and \<open>contrastRatio f2 b\<close> is not less than \<open>contrastRatio f1 b\<close>.
\<close>

theorem contrastRatio_monotone:
  assumes "in_unit b" "in_unit f1" "in_unit f2"
    and "val b \<le> val f1 \<and> val f1 \<le> val f2 \<or> val f2 \<le> val f1 \<and> val f1 \<le> val b"
  shows "(\<exists>v1 v2. contrastRatio f1 b = Fin v1 \<and> contrastRatio f2 b = Fin v2 \<and> v1 \<le> v2)
    \<and> \<not> num_lt (contrastRatio f2 b) (contrastRatio f1 b)"
proof -
  note B = in_unit_val [OF assms(1)]
  note F1 = in_unit_val [OF assms(2)]
  note F2 = in_unit_val [OF assms(3)]
  have e1: "contrastRatio f1 b = contrastRatio (Fin (val f1)) (Fin (val b))"
    using assms(2,1) by (rule ratio_of_val)
  have e2: "contrastRatio f2 b = contrastRatio (Fin (val f2)) (Fin (val b))"
    using assms(3,1) by (rule ratio_of_val)
  have "\<exists>v1 v2. contrastRatio (Fin (val f1)) (Fin (val b)) = Fin v1
      \<and> contrastRatio (Fin (val f2)) (Fin (val b)) = Fin v2 \<and> v1 \<le> v2"
    using assms(4)
  proof
    assume "val b \<le> val f1 \<and> val f1 \<le> val f2"
    then show ?thesis using B F2 by (intro ratio_mono_above) simp_all
  next
    assume "val f2 \<le> val f1 \<and> val f1 \<le> val b"
    then show ?thesis using B F2 by (intro ratio_mono_below) simp_all
  qed
  then show ?thesis unfolding e1 e2 by auto
qed

theorem contrastRatio_monotone_witness:
  "in_unit (Fin 0) \<and> in_unit (Fin (1 / 2)) \<and> in_unit (Fin 1)
   \<and> val (Fin 0) \<le> val (Fin (1 / 2)) \<and> val (Fin (1 / 2)) \<le> val (Fin 1)
   \<and> (\<exists>v1 v2. contrastRatio (Fin (1 / 2)) (Fin 0) = Fin v1 \<and> contrastRatio (Fin 1) (Fin 0) = Fin v2
         \<and> v1 \<le> v2)
   \<and> \<not> num_lt (contrastRatio (Fin 1) (Fin 0)) (contrastRatio (Fin (1 / 2)) (Fin 0))"
  using contrastRatio_monotone [of "Fin 0" "Fin (1 / 2)" "Fin 1"] by (simp add: in_unit_def)

text \<open>
  C7. For an element whose style has both \<open>color\<close> and \<open>backgroundColor\<close> set, calling
  \<open>checkTextContrast\<close> with the background omitted returns a value, the same value as
  passing that element as both the text and the background.
\<close>

theorem default_background:
  assumes "color (style text) = Some c" and "backgroundColor (style text) = Some b"
  shows "checkTextContrast app text None = checkTextContrast app text (Some text)
    \<and> (\<exists>v. checkTextContrast app text None = Inr v)"
  using assms by (simp add: checkTextContrast_def Let_def)

theorem default_background_witness:
  "checkTextContrast () (elem (Some (js_str ''#000000'')) (Some (js_str ''#ffffff''))) None
     = checkTextContrast () (elem (Some (js_str ''#000000'')) (Some (js_str ''#ffffff'')))
         (Some (elem (Some (js_str ''#000000'')) (Some (js_str ''#ffffff''))))
   \<and> (\<exists>v. checkTextContrast () (elem (Some (js_str ''#000000'')) (Some (js_str ''#ffffff''))) None
         = Inr v)"
  by (rule default_background) (simp_all add: elem_simps)

text \<open>
  C8 as stated: every color string that is not \<open>#\<close> followed by three or six hex digits
  makes the result not-a-number. This fails for each kind of malformed string the claim
  names: a seventh digit is never read, \<open>parseInt\<close> stops at the first non-digit of
  \<open>fg\<close> and returns 15, and the first character is skipped whatever it is. Each of these
  strings, as both colors of one element, gives the ratio 1.
\<close>

theorem malformed_color_counterexample:
  "\<not> valid_hex_color (js_str ''#fffffff'')
   \<and> checkTextContrast () (elem (Some (js_str ''#fffffff'')) (Some (js_str ''#fffffff''))) None
       = Inr (Fin 1)
   \<and> \<not> valid_hex_color (js_str ''#fgfgfg'')
   \<and> checkTextContrast () (elem (Some (js_str ''#fgfgfg'')) (Some (js_str ''#fgfgfg''))) None
       = Inr (Fin 1)
   \<and> \<not> valid_hex_color (js_str ''ffffff'')
   \<and> checkTextContrast () (elem (Some (js_str ''ffffff'')) (Some (js_str ''ffffff''))) None
       = Inr (Fin 1)"
proof -
  have v: "\<not> valid_hex_color (js_str ''#fffffff'')" "\<not> valid_hex_color (js_str ''#fgfgfg'')"
      "\<not> valid_hex_color (js_str ''ffffff'')"
    by (simp_all add: valid_hex_color_def js_str_def hex_digit_def)
  have r1: "toRGB_hex (js_str ''#fffffff'') = (Fin 255, Fin 255, Fin 255)"
    by (simp add: parse_eval rnd_def rq_eval)
  have r2: "toRGB_hex (js_str ''#fgfgfg'') = (Fin 15, Fin 15, Fin 15)"
    by (simp add: parse_eval rnd_def rq_eval)
  have r3: "toRGB_hex (js_str ''ffffff'') = (Fin 255, Fin 255, Fin 15)"
    by (simp add: parse_eval rnd_def rq_eval)
  have "checkTextContrast () (elem (Some (js_str ''#fffffff'')) (Some (js_str ''#fffffff''))) None
      = Inr (Fin 1)"
    by (rule same_rgb_ratio [OF r1]) (simp_all add: elem_simps)
  moreover have "checkTextContrast () (elem (Some (js_str ''#fgfgfg'')) (Some (js_str ''#fgfgfg''))) None
      = Inr (Fin 1)"
    by (rule same_rgb_ratio [OF r2]) (simp_all add: elem_simps)
  moreover have "checkTextContrast () (elem (Some (js_str ''ffffff'')) (Some (js_str ''ffffff''))) None
      = Inr (Fin 1)"
    by (rule same_rgb_ratio [OF r3]) (simp_all add: elem_simps)
  ultimately show ?thesis using v by (simp only: simp_thms)
qed

text \<open>
  C8, amended: for any two color strings \<open>checkTextContrast\<close> returns a Number and raises
  no error; and whenever \<open>parseInt\<close> yields not-a-number for one of the six chunks (the chunk
  has no hex digit after optional leading white space, a sign and a \<open>0x\<close> prefix, see
  \<open>parseInt16_nan_iff\<close>), the returned Number is not-a-number.
\<close>

theorem nan_propagates:
  assumes "color (style text) = Some c1"
    and "backgroundColor (style (case bg of None \<Rightarrow> text | Some b \<Rightarrow> b)) = Some c2"
  shows "(\<exists>v. checkTextContrast app text bg = Inr v)
    \<and> (has_nan (toRGB_hex c1) \<or> has_nan (toRGB_hex c2)
         \<longrightarrow> checkTextContrast app text bg = Inr NaN)"
proof -
  have eq: "checkTextContrast app text bg
      = Inr (contrastRatio (luminance_of c1) (luminance_of c2))"
    using assms by (rule checkTextContrast_eq)
  show ?thesis unfolding eq luminance_of_def by (auto simp add: luminance_nan ratio_nan)
qed

theorem nan_propagates_witness:
  "has_nan (toRGB_hex (js_str ''#xyz''))
   \<and> checkTextContrast () (elem (Some (js_str ''#xyz'')) None)
       (Some (elem None (Some (js_str ''#ffffff'')))) = Inr NaN"
proof -
  have h: "has_nan (toRGB_hex (js_str ''#xyz''))"
    by (simp add: has_nan_def parse_eval)
  from nan_propagates [of "elem (Some (js_str ''#xyz'')) None" "js_str ''#xyz''"
      "Some (elem None (Some (js_str ''#ffffff'')))" "js_str ''#ffffff''" "()"] h
  show ?thesis by (simp add: elem_simps)
qed

text \<open>
  C9. The first parameter has no effect: for any two values of it, of any types, and the
  same text and background arguments, the results are equal.
\<close>

theorem appContext_unused: "checkTextContrast a1 text bg = checkTextContrast a2 text bg"
  by (simp add: checkTextContrast_def)

theorem appContext_unused_witness:
  "checkTextContrast (0 :: nat) (elem (Some (js_str ''#000000'')) (Some (js_str ''#ffffff''))) None
     = checkTextContrast True (elem (Some (js_str ''#000000'')) (Some (js_str ''#ffffff''))) None"
  by (rule appContext_unused)

text \<open>
  C10. The result depends only on \<open>text.style.color\<close> and on \<open>background.style.backgroundColor\<close>
  (the background being the text element when the argument is omitted): two calls that
  agree on these two properties return equal results, whatever else the elements, their
  styles and the first arguments hold.
\<close>

theorem depends_on_two_strings:
  assumes "color (style t1) = color (style t2)"
    and "backgroundColor (style (case g1 of None \<Rightarrow> t1 | Some b \<Rightarrow> b))
       = backgroundColor (style (case g2 of None \<Rightarrow> t2 | Some b \<Rightarrow> b))"
  shows "checkTextContrast a1 t1 g1 = checkTextContrast a2 t2 g2"
  unfolding checkTextContrast_def Let_def by (simp only: assms)

theorem depends_on_two_strings_witness:
  "checkTextContrast () (elem (Some (js_str ''#000000'')) (Some (js_str ''#fff'')))
       (Some (elem (Some (js_str ''#fff'')) (Some (js_str ''#ffffff''))))
     = checkTextContrast True (elem (Some (js_str ''#000000'')) None)
       (Some (elem None (Some (js_str ''#ffffff''))))"
  by (rule depends_on_two_strings) (simp_all add: elem_simps)

end
